theory Spec2Isabelle
  imports Main "HOL-Library.Sublist" "HOL-Library.Char_ord" "HOL-Library.List_Lexorder"
begin

section \<open>Strings of the host language\<close>

text \<open>
  A JavaScript string is a sequence of UTF-16 code units. The model works with
  \<^typ>\<open>string\<close>, that is with the code units below 256 (ASCII and Latin-1), which
  covers every delimiter, separator and pattern character the linter looks for.
  The current date and the current timestamp, which the source reads from the clock,
  are explicit arguments of the functions that read them.
\<close>

abbreviation LF :: char where "LF \<equiv> CHR 0x0A"
abbreviation CR :: char where "CR \<equiv> CHR 0x0D"

text \<open>
  The characters matched by \<^verbatim>\<open>\s\<close> and removed by \<^verbatim>\<open>trim\<close>, \<^verbatim>\<open>trimStart\<close>:
  tab, line feed, vertical tab, form feed, carriage return, space, no-break space.
\<close>

definition isWhiteSpace :: "char \<Rightarrow> bool" where
  "isWhiteSpace c =
     (c = CHR 0x09 \<or> c = CHR 0x0A \<or> c = CHR 0x0B \<or> c = CHR 0x0C \<or> c = CHR 0x0D
      \<or> c = CHR 0x20 \<or> c = CHR 0xA0)"

definition trimStart :: "string \<Rightarrow> string" where
  "trimStart s = dropWhile isWhiteSpace s"

definition trimEnd :: "string \<Rightarrow> string" where
  "trimEnd s = rev (dropWhile isWhiteSpace (rev s))"

definition trim :: "string \<Rightarrow> string" where
  "trim s = trimStart (trimEnd s)"

definition startsWith :: "string \<Rightarrow> string \<Rightarrow> bool" where
  "startsWith s p = prefix p s"

definition endsWith :: "string \<Rightarrow> string \<Rightarrow> bool" where
  "endsWith s p = suffix p s"

text \<open>
  \<^verbatim>\<open>toLowerCase\<close> maps one code unit to one code unit below 256: the letters A-Z and
  the Latin-1 capitals U+00C0..U+00DE, the multiplication sign U+00D7 apart, move up
  by 32.
\<close>

definition toLowerChar :: "char \<Rightarrow> char" where
  "toLowerChar c =
     (let n = (of_char c :: nat)
      in if (65 \<le> n \<and> n \<le> 90) \<or> (192 \<le> n \<and> n \<le> 222 \<and> n \<noteq> 215)
         then char_of (n + 32) else c)"

definition toLowerCase :: "string \<Rightarrow> string" where
  "toLowerCase s = map toLowerChar s"

text \<open>
  \<^verbatim>\<open>toUpperCase\<close>: the letters a-z and the Latin-1 small letters U+00E0..U+00FE, the
  division sign U+00F7 apart, move down by 32; the sharp s U+00DF becomes the two
  letters SS. The micro sign U+00B5 and the y with diaeresis U+00FF have their capitals
  above 255, outside the alphabet of the model: the model keeps these two characters,
  and what is stated below about upper case is stated for texts without them.
\<close>

definition toUpperChar :: "char \<Rightarrow> string" where
  "toUpperChar c =
     (let n = (of_char c :: nat)
      in if (97 \<le> n \<and> n \<le> 122) \<or> (224 \<le> n \<and> n \<le> 254 \<and> n \<noteq> 247)
         then [char_of (n - 32)]
         else if n = 223 then ''SS'' else [c])"

definition toUpperCase :: "string \<Rightarrow> string" where
  "toUpperCase s = concat (map toUpperChar s)"

text \<open>
  \<^verbatim>\<open>s.split(sep)\<close> for a separator that is one character, or a regular expression
  matching exactly one character of a class: the pieces between the separators, empty
  pieces included; the empty string splits into one empty piece.
\<close>

fun splitOn :: "(char \<Rightarrow> bool) \<Rightarrow> string \<Rightarrow> string list" where
  "splitOn p [] = [[]]"
| "splitOn p (c # cs) =
     (if p c then [] # splitOn p cs
      else (case splitOn p cs of
              [] \<Rightarrow> [[c]]
            | w # ws \<Rightarrow> (c # w) # ws))"

text \<open>
  \<^verbatim>\<open>s.indexOf(pat)\<close>: the first position where \<open>pat\<close> occurs; \<open>None\<close> stands
  for the source's \<open>-1\<close>.
\<close>

fun indexOf :: "string \<Rightarrow> string \<Rightarrow> nat option" where
  "indexOf [] pat = (if pat = [] then Some 0 else None)"
| "indexOf (c # cs) pat =
     (if prefix pat (c # cs) then Some 0 else map_option Suc (indexOf cs pat))"

text \<open>
  The replacement text of \<^verbatim>\<open>String.prototype.replace\<close> when the replacement is a
  string and the pattern has no capture group: \<^verbatim>\<open>$$\<close> is a dollar sign, \<^verbatim>\<open>$&\<close>
  the matched text, \<^verbatim>\<open>$`\<close> the text in front of the match, \<^verbatim>\<open>$'\<close> the text behind it;
  every other character stands for itself.
\<close>

fun getSubstitution :: "string \<Rightarrow> string \<Rightarrow> string \<Rightarrow> string \<Rightarrow> string" where
  "getSubstitution matched pre post [] = []"
| "getSubstitution matched pre post [c] = [c]"
| "getSubstitution matched pre post (c # d # r) =
     (if c = CHR ''$'' \<and> d = CHR ''$'' then CHR ''$'' # getSubstitution matched pre post r
      else if c = CHR ''$'' \<and> d = CHR ''&'' then matched @ getSubstitution matched pre post r
      else if c = CHR ''$'' \<and> d = CHR 0x60 then pre @ getSubstitution matched pre post r
      else if c = CHR ''$'' \<and> d = CHR 0x27 then post @ getSubstitution matched pre post r
      else c # getSubstitution matched pre post (d # r))"

text \<open>
  \<^verbatim>\<open>s.replace(/re/g, r)\<close> for a pattern without anchors that never matches the empty
  string. \<open>m\<close> gives the length of the match that starts at the head of its argument
  (0 when there is none); \<open>f\<close> builds the replacement from the text in
  front of the match, the matched text and the text behind it. The scan goes left to right and
  resumes behind each match, as the global flag does.
\<close>

function jsReplaceAll ::
  "(string \<Rightarrow> nat) \<Rightarrow> (string \<Rightarrow> string \<Rightarrow> string \<Rightarrow> string) \<Rightarrow> string \<Rightarrow> string \<Rightarrow> string" where
  "jsReplaceAll m f pre [] = []"
| "jsReplaceAll m f pre (c # cs) =
     (if m (c # cs) = 0 then c # jsReplaceAll m f (pre @ [c]) cs
      else f pre (take (m (c # cs)) (c # cs)) (drop (m (c # cs)) (c # cs))
           @ jsReplaceAll m f (pre @ take (m (c # cs)) (c # cs)) (drop (m (c # cs)) (c # cs)))"
  by pat_completeness auto
termination
  by (relation "measure (\<lambda>(m, f, pre, s). length s)") auto

declare jsReplaceAll.simps [simp del]

text \<open>The match of a literal pattern at the head of the text.\<close>

definition matchLiteral :: "string \<Rightarrow> string \<Rightarrow> nat" where
  "matchLiteral pat s = (if prefix pat s then length pat else 0)"

text \<open>\<^verbatim>\<open>s.replace(/pat/g, repl)\<close> for a literal pattern and a replacement string.\<close>

definition replaceAllLiteral :: "string \<Rightarrow> string \<Rightarrow> string \<Rightarrow> string" where
  "replaceAllLiteral pat repl s =
     jsReplaceAll (matchLiteral pat)
       (\<lambda>pre matched post. getSubstitution matched pre post repl) [] s"

text \<open>\<^verbatim>\<open>s.replace(/\.md$/, '')\<close>: the pattern is anchored at the end of the text.\<close>

definition stripMdExtension :: "string \<Rightarrow> string" where
  "stripMdExtension s = (if suffix ''.md'' s then take (length s - 3) s else s)"

section \<open>Settings\<close>

datatype TagFormat = lowercase | uppercase | camelCase | none

datatype WikilinkStyle = shortest | relative | absolute

record VaultLinterSettings =
  enforceFrontmatter :: bool
  frontmatterTemplate :: string
  normalizeFormatting :: bool
  endWithNewline :: bool
  removeMultipleBlankLines :: bool
  enforceTagRules :: bool
  tagFormat :: TagFormat
  safeWikilinkInsertion :: bool
  wikilinkStyle :: WikilinkStyle

definition DEFAULT_SETTINGS :: VaultLinterSettings where
  "DEFAULT_SETTINGS =
     \<lparr> enforceFrontmatter = True,
       frontmatterTemplate =
         ''---'' @ [LF] @ ''title: {{title}}'' @ [LF] @ ''date: {{date}}'' @ [LF]
         @ ''tags: []'' @ [LF] @ ''---'',
       normalizeFormatting = True,
       endWithNewline = True,
       removeMultipleBlankLines = True,
       enforceTagRules = False,
       tagFormat = lowercase,
       safeWikilinkInsertion = True,
       wikilinkStyle = shortest \<rparr>"

section \<open>Formatting normalizer\<close>

text \<open>The length of the run of line feeds at the head of the text.\<close>

definition blankRun :: "string \<Rightarrow> nat" where
  "blankRun s = length (takeWhile (\<lambda>c. c = LF) s)"

text \<open>
  The match of \<^verbatim>\<open>\n{3,}\<close> at the head of the text: the whole run of line feeds
  there, when it has three or more.
\<close>

definition matchBlankRun :: "string \<Rightarrow> nat" where
  "matchBlankRun s = (let n = blankRun s in if 3 \<le> n then n else 0)"

text \<open>\<^verbatim>\<open>content.replace(/\n{3,}/g, '\n\n')\<close>, from any point of the scan.\<close>

abbreviation collapse :: "string \<Rightarrow> string \<Rightarrow> string" where
  "collapse pre s \<equiv> jsReplaceAll matchBlankRun (\<lambda>pre matched post. [LF, LF]) pre s"

definition FormattingNormalizer_removeMultipleBlankLines ::
  "VaultLinterSettings \<Rightarrow> string \<Rightarrow> string" where
  "FormattingNormalizer_removeMultipleBlankLines settings content =
     (if \<not> removeMultipleBlankLines settings then content
      else collapse [] content)"

text \<open>
  \<^verbatim>\<open>content.replace(/\s+$/, '') + '\n'\<close>: the first match of the anchored pattern is
  the whole trailing run of white space.
\<close>

definition FormattingNormalizer_ensureTrailingNewline ::
  "VaultLinterSettings \<Rightarrow> string \<Rightarrow> string" where
  "FormattingNormalizer_ensureTrailingNewline settings content =
     (if \<not> endWithNewline settings then content
      else trimEnd content @ [LF])"

definition FormattingNormalizer_normalizeLineEndings :: "string \<Rightarrow> string" where
  "FormattingNormalizer_normalizeLineEndings content =
     jsReplaceAll (matchLiteral [CR, LF]) (\<lambda>pre matched post. [LF]) [] content"

definition FormattingNormalizer_normalize :: "VaultLinterSettings \<Rightarrow> string \<Rightarrow> string" where
  "FormattingNormalizer_normalize settings content =
     (if \<not> normalizeFormatting settings then content
      else
        let normalized = content;
            normalized = FormattingNormalizer_normalizeLineEndings normalized;
            normalized = FormattingNormalizer_removeMultipleBlankLines settings normalized;
            normalized = FormattingNormalizer_ensureTrailingNewline settings normalized
        in normalized)"

section \<open>Frontmatter enforcer\<close>

definition FrontmatterEnforcer_hasFrontmatter :: "string \<Rightarrow> bool" where
  "FrontmatterEnforcer_hasFrontmatter content = startsWith (trimStart content) ''---''"

text \<open>
  The source returns the object \<^verbatim>\<open>{ frontmatter, body }\<close>, here the pair of the two
  strings, or \<open>null\<close>, here \<open>None\<close>.
\<close>

definition FrontmatterEnforcer_extractFrontmatter :: "string \<Rightarrow> (string \<times> string) option" where
  "FrontmatterEnforcer_extractFrontmatter content =
     (let trimmed = trimStart content
      in if \<not> startsWith trimmed ''---'' then None
         else
           let afterFirst = drop 3 trimmed
           in (case indexOf afterFirst (LF # ''---'') of
                 None \<Rightarrow> None
               | Some endIndex \<Rightarrow>
                   Some (take endIndex afterFirst, drop (endIndex + 4) afterFirst)))"

definition isLowerAlnum :: "char \<Rightarrow> bool" where
  "isLowerAlnum c =
     (let n = (of_char c :: nat) in (97 \<le> n \<and> n \<le> 122) \<or> (48 \<le> n \<and> n \<le> 57))"

text \<open>The match of \<^verbatim>\<open>[^a-z0-9]+\<close> at the head of the text.\<close>

definition matchNonAlnumRun :: "string \<Rightarrow> nat" where
  "matchNonAlnumRun s = length (takeWhile (\<lambda>c. \<not> isLowerAlnum c) s)"

text \<open>
  \<^verbatim>\<open>s.replace(/^-+|-+$/g, '')\<close>: the first alternative matches the hyphens at the
  start of the text, the second the hyphens that reach its end.
\<close>

definition stripHyphens :: "string \<Rightarrow> string" where
  "stripHyphens s =
     rev (dropWhile (\<lambda>c. c = CHR ''-'') (rev (dropWhile (\<lambda>c. c = CHR ''-'') s)))"

definition FrontmatterEnforcer_generateId :: "string \<Rightarrow> string" where
  "FrontmatterEnforcer_generateId title =
     stripHyphens
       (jsReplaceAll matchNonAlnumRun (\<lambda>pre matched post. ''-'') [] (toLowerCase title))"

text \<open>
  \<open>date\<close> is the value of \<^verbatim>\<open>new Date().toISOString().split('T')[0]\<close> at the time
  of the call.
\<close>

definition FrontmatterEnforcer_generateFrontmatter ::
  "VaultLinterSettings \<Rightarrow> string \<Rightarrow> string \<Rightarrow> string" where
  "FrontmatterEnforcer_generateFrontmatter settings date fileName =
     (if \<not> enforceFrontmatter settings then []
      else
        let title = stripMdExtension fileName;
            ident = FrontmatterEnforcer_generateId title;
            frontmatter = frontmatterTemplate settings;
            frontmatter = replaceAllLiteral ''{{id}}'' ident frontmatter;
            frontmatter = replaceAllLiteral ''{{title}}'' title frontmatter;
            frontmatter = replaceAllLiteral ''{{date}}'' date frontmatter;
            frontmatter =
              (if \<not> startsWith frontmatter ''---'' then ''---'' @ [LF] @ frontmatter
               else frontmatter);
            frontmatter =
              (if \<not> endsWith frontmatter ''---'' then frontmatter @ [LF] @ ''---''
               else frontmatter)
        in frontmatter)"

definition FrontmatterEnforcer_enforce ::
  "VaultLinterSettings \<Rightarrow> string \<Rightarrow> string \<Rightarrow> string \<Rightarrow> string" where
  "FrontmatterEnforcer_enforce settings date content fileName =
     (if \<not> enforceFrontmatter settings then content
      else if FrontmatterEnforcer_hasFrontmatter content then content
      else
        let frontmatter = FrontmatterEnforcer_generateFrontmatter settings date fileName
        in frontmatter @ [LF, LF] @ content)"

section \<open>Tag rules\<close>

text \<open>The class \<^verbatim>\<open>[a-zA-Z0-9_\-\/]\<close>.\<close>

definition isTagChar :: "char \<Rightarrow> bool" where
  "isTagChar c =
     (let n = (of_char c :: nat)
      in (97 \<le> n \<and> n \<le> 122) \<or> (65 \<le> n \<and> n \<le> 90) \<or> (48 \<le> n \<and> n \<le> 57)
         \<or> c = CHR ''_'' \<or> c = CHR ''-'' \<or> c = CHR ''/'')"

text \<open>The match of \<^verbatim>\<open>#([a-zA-Z0-9_\-\/]+)\<close> at the head of the text.\<close>

definition matchTag :: "string \<Rightarrow> nat" where
  "matchTag s =
     (case s of
        [] \<Rightarrow> 0
      | c # r \<Rightarrow>
          if c = CHR ''#'' \<and> takeWhile isTagChar r \<noteq> []
          then Suc (length (takeWhile isTagChar r)) else 0)"

text \<open>The class \<^verbatim>\<open>[_\-\/]\<close> the camelCase transform splits on.\<close>

definition isTagSeparator :: "char \<Rightarrow> bool" where
  "isTagSeparator c = (c = CHR ''_'' \<or> c = CHR ''-'' \<or> c = CHR ''/'')"

definition TagRules_normalizeTag :: "VaultLinterSettings \<Rightarrow> string \<Rightarrow> string" where
  "TagRules_normalizeTag settings tag =
     (if \<not> enforceTagRules settings then tag
      else (case tagFormat settings of
              lowercase \<Rightarrow> toLowerCase tag
            | uppercase \<Rightarrow> toUpperCase tag
            | camelCase \<Rightarrow>
                concat (map (\<lambda>(index, word).
                               if index = 0 then toLowerCase word
                               else toUpperCase (take 1 word) @ toLowerCase (drop 1 word))
                            (enumerate 0 (splitOn isTagSeparator tag)))
            | none \<Rightarrow> tag))"

definition TagRules_enforce :: "VaultLinterSettings \<Rightarrow> string \<Rightarrow> string" where
  "TagRules_enforce settings content =
     (if \<not> enforceTagRules settings then content
      else jsReplaceAll matchTag
             (\<lambda>pre matched post. ''#'' @ TagRules_normalizeTag settings (drop 1 matched))
             [] content)"

section \<open>Wikilink inserter\<close>

text \<open>
  The match of \<^verbatim>\<open>\[\[([^\]]+)\]\]\<close> at the head of the text. The greedy class stops
  at the first closing bracket, and giving characters back cannot help: the character
  that follows a shorter run is not a closing bracket.
\<close>

definition matchWikilink :: "string \<Rightarrow> nat" where
  "matchWikilink s =
     (if \<not> prefix ''[['' s then 0
      else
        let inner = takeWhile (\<lambda>c. c \<noteq> CHR '']'') (drop 2 s)
        in if inner \<noteq> [] \<and> prefix '']]'' (drop (2 + length inner) s)
           then length inner + 4 else 0)"

definition WikilinkInserter_normalizeWikilinkPath ::
  "VaultLinterSettings \<Rightarrow> string \<Rightarrow> string" where
  "WikilinkInserter_normalizeWikilinkPath settings path =
     (if \<not> safeWikilinkInsertion settings then path
      else
        let parts = splitOn (\<lambda>c. c = CHR ''|'') path;
            linkPath = trim (hd parts);
            alias = (if length parts > 1 then Some (trim (parts ! 1)) else None);
            linkPath =
              (case wikilinkStyle settings of
                 shortest \<Rightarrow>
                   let popped = last (splitOn (\<lambda>c. c = CHR ''/'') linkPath);
                       linkPath = (if popped \<noteq> [] then popped else linkPath)
                   in stripMdExtension linkPath
               | relative \<Rightarrow> linkPath
               | absolute \<Rightarrow> linkPath)
        in (case alias of
              None \<Rightarrow> linkPath
            | Some a \<Rightarrow> if a \<noteq> [] then linkPath @ ''|'' @ a else linkPath))"

definition WikilinkInserter_normalize :: "VaultLinterSettings \<Rightarrow> string \<Rightarrow> string" where
  "WikilinkInserter_normalize settings content =
     (if \<not> safeWikilinkInsertion settings then content
      else jsReplaceAll matchWikilink
             (\<lambda>pre matched post.
                ''[['' @ WikilinkInserter_normalizeWikilinkPath settings
                           (take (length matched - 4) (drop 2 matched)) @ '']]'')
             [] content)"

section \<open>Normalization pipeline\<close>

definition NormalizationPipeline_normalize ::
  "VaultLinterSettings \<Rightarrow> string \<Rightarrow> string \<Rightarrow> string \<Rightarrow> string" where
  "NormalizationPipeline_normalize settings date content fileName =
     (let normalized = content;
          normalized = FrontmatterEnforcer_enforce settings date normalized fileName;
          normalized = FormattingNormalizer_normalize settings normalized;
          normalized = TagRules_enforce settings normalized;
          normalized = WikilinkInserter_normalize settings normalized
      in normalized)"

section \<open>Change report\<close>

datatype ChangeType =
  frontmatter_added | frontmatter_normalized | formatting_normalized
  | tags_normalized | wikilinks_normalized

text \<open>The string each member of the union type is in the source.\<close>

fun ChangeType_text :: "ChangeType \<Rightarrow> string" where
  "ChangeType_text frontmatter_added = ''frontmatter-added''"
| "ChangeType_text frontmatter_normalized = ''frontmatter-normalized''"
| "ChangeType_text formatting_normalized = ''formatting-normalized''"
| "ChangeType_text tags_normalized = ''tags-normalized''"
| "ChangeType_text wikilinks_normalized = ''wikilinks-normalized''"

record Change =
  type :: ChangeType
  description :: string
  lineNumber :: "nat option"

record ChangeReport =
  filePath :: string
  fileName :: string
  changes :: "Change list"
  originalContent :: string
  normalizedContent :: string

text \<open>A count in a template literal: its decimal digits.\<close>

fun showNat :: "nat \<Rightarrow> string" where
  "showNat n =
     (if n < 10 then [char_of (48 + n)]
      else showNat (n div 10) @ [char_of (48 + n mod 10)])"

text \<open>
  The \<^verbatim>\<open>Map<string, number>\<close> of the tally, as the list of its entries in insertion
  order: \<^verbatim>\<open>get\<close> with the source's default 0, and \<^verbatim>\<open>set\<close>, which keeps the place
  of a key that is present.
\<close>

fun tallyGet :: "(string \<times> nat) list \<Rightarrow> string \<Rightarrow> nat" where
  "tallyGet [] k = 0"
| "tallyGet ((k', v) # es) k = (if k' = k then v else tallyGet es k)"

fun tallySet :: "(string \<times> nat) list \<Rightarrow> string \<Rightarrow> nat \<Rightarrow> (string \<times> nat) list" where
  "tallySet [] k v = [(k, v)]"
| "tallySet ((k', v') # es) k v = (if k' = k then (k, v) # es else (k', v') # tallySet es k v)"

definition countChangeTypes :: "ChangeReport list \<Rightarrow> (string \<times> nat) list" where
  "countChangeTypes changedFiles =
     foldl (\<lambda>changeTypes report.
              foldl (\<lambda>changeTypes change.
                       tallySet changeTypes (ChangeType_text (type change))
                         (tallyGet changeTypes (ChangeType_text (type change)) + 1))
                    changeTypes (changes report))
           [] changedFiles"

text \<open>
  \<^verbatim>\<open>Array.from(changeTypes.entries()).sort()\<close>: without a comparator the entries are
  ordered by their string forms, \<^verbatim>\<open>type,count\<close>, compared code unit by code unit.
\<close>

definition sortEntries :: "(string \<times> nat) list \<Rightarrow> (string \<times> nat) list" where
  "sortEntries entries = sort_key (\<lambda>(t, count). t @ '','' @ showNat count) entries"

text \<open>The block of the source that renders the changed files, appended to \<open>markdown\<close>.\<close>

definition renderChangedFiles :: "string \<Rightarrow> ChangeReport list \<Rightarrow> string" where
  "renderChangedFiles markdown changedFiles =
     (let markdown = markdown @ ''## Summary of Changes'' @ [LF, LF];
          changeTypes = countChangeTypes changedFiles;
          markdown =
            foldl (\<lambda>markdown (t, count).
                     markdown @ ''- **'' @ t @ ''**: '' @ showNat count @ '' file(s)'' @ [LF])
                  markdown (sortEntries changeTypes);
          markdown = markdown @ [LF] @ ''## Files Modified'' @ [LF, LF];
          markdown =
            foldl (\<lambda>markdown report.
                     let markdown = markdown @ ''### '' @ fileName report @ [LF, LF];
                         markdown = markdown @ ''**Path**: `'' @ filePath report @ ''`'' @ [LF, LF];
                         markdown = markdown @ ''**Changes**:'' @ [LF];
                         markdown =
                           foldl (\<lambda>markdown change.
                                    markdown @ ''- '' @ description change @ [LF])
                                 markdown (changes report)
                     in markdown @ [LF])
                  markdown changedFiles
      in markdown)"

text \<open>
  The text the source has built when it reaches its last block, the one that lists the
  unchanged files. \<open>timestamp\<close> is the value of \<^verbatim>\<open>new Date().toISOString()\<close> at the
  time of the call.
\<close>

definition vaultReportUpToUnchanged :: "string \<Rightarrow> ChangeReport list \<Rightarrow> string" where
  "vaultReportUpToUnchanged timestamp reports =
     (let markdown = ''# Vault Linting Report'' @ [LF, LF];
          markdown = markdown @ ''**Generated**: '' @ timestamp @ [LF];
          markdown = markdown @ ''**Total Files Processed**: '' @ showNat (length reports) @ [LF, LF];
          changedFiles = filter (\<lambda>r. length (changes r) > 0) reports;
          unchangedFiles = filter (\<lambda>r. length (changes r) = 0) reports;
          markdown = markdown @ ''**Files with Changes**: '' @ showNat (length changedFiles) @ [LF];
          markdown = markdown @ ''**Files Already Conforming**: ''
                       @ showNat (length unchangedFiles) @ [LF, LF];
          markdown =
            (if length changedFiles > 0 then renderChangedFiles markdown changedFiles
             else markdown)
      in markdown)"

definition formatVaultReportAsMarkdown :: "string \<Rightarrow> ChangeReport list \<Rightarrow> string" where
  "formatVaultReportAsMarkdown timestamp reports =
     (let markdown = vaultReportUpToUnchanged timestamp reports;
          unchangedFiles = filter (\<lambda>r. length (changes r) = 0) reports;
          markdown =
            (if length unchangedFiles > 0 \<and> length unchangedFiles \<le> 20
             then
               let markdown = markdown @ ''## Files Already Conforming'' @ [LF, LF];
                   markdown =
                     foldl (\<lambda>markdown report. markdown @ ''- `'' @ filePath report @ ''`'' @ [LF])
                           markdown unchangedFiles
               in markdown @ [LF]
             else markdown)
      in markdown)"

section \<open>The wikilink path as the specification words it\<close>

text \<open>
  The reading of \<open>normalizeWikilinkPath\<close> given by the specification, to be compared
  with the source's: split at the first bar, the link path is the text in front of it
  and the alias all the text behind it, trimmed; the shortest style keeps the text
  behind the last slash and strips a trailing \<^verbatim>\<open>.md\<close>; the result is the link path,
  followed by the bar and the alias when there was an alias.
\<close>

definition claimed_normalizeWikilinkPath :: "VaultLinterSettings \<Rightarrow> string \<Rightarrow> string" where
  "claimed_normalizeWikilinkPath settings path =
     (if \<not> safeWikilinkInsertion settings then path
      else
        let linkPath = takeWhile (\<lambda>c. c \<noteq> CHR ''|'') path;
            alias = (case dropWhile (\<lambda>c. c \<noteq> CHR ''|'') path of
                       [] \<Rightarrow> None
                     | bar # rest \<Rightarrow> Some (trim rest));
            linkPath =
              (case wikilinkStyle settings of
                 shortest \<Rightarrow>
                   stripMdExtension (rev (takeWhile (\<lambda>c. c \<noteq> CHR ''/'') (rev linkPath)))
               | relative \<Rightarrow> linkPath
               | absolute \<Rightarrow> linkPath)
        in (case alias of
              None \<Rightarrow> linkPath
            | Some a \<Rightarrow> linkPath @ ''|'' @ a))"

section \<open>Configurations used as concrete inputs\<close>

definition allRulesOff :: VaultLinterSettings where
  "allRulesOff =
     \<lparr> enforceFrontmatter = False, frontmatterTemplate = ''---'' @ [LF] @ ''---'',
       normalizeFormatting = False, endWithNewline = False, removeMultipleBlankLines = False,
       enforceTagRules = False, tagFormat = lowercase,
       safeWikilinkInsertion = False, wikilinkStyle = shortest \<rparr>"

definition camelCaseTagsOnly :: VaultLinterSettings where
  "camelCaseTagsOnly =
     \<lparr> enforceFrontmatter = False, frontmatterTemplate = ''---'' @ [LF] @ ''---'',
       normalizeFormatting = False, endWithNewline = False, removeMultipleBlankLines = False,
       enforceTagRules = True, tagFormat = camelCase,
       safeWikilinkInsertion = False, wikilinkStyle = shortest \<rparr>"

definition conformingReport :: ChangeReport where
  "conformingReport =
     \<lparr> filePath = ''notes/a.md'', fileName = ''a.md'', changes = [],
       originalContent = ''x'' @ [LF], normalizedContent = ''x'' @ [LF] \<rparr>"

definition changedReport :: ChangeReport where
  "changedReport =
     \<lparr> filePath = ''notes/b.md'', fileName = ''b.md'',
       changes = [\<lparr> type = tags_normalized, description = ''Normalized tag formatting'',
                    lineNumber = None \<rparr>],
       originalContent = ''#B'', normalizedContent = ''#b'' \<rparr>"

section \<open>Facts about strings\<close>

lemma prefix_append_keep: "prefix p s \<Longrightarrow> prefix p (s @ t)"
  by (auto simp: prefix_def)

lemma trimStart_dashes: "prefix ''---'' s \<Longrightarrow> trimStart s = s"
  by (auto simp: prefix_def trimStart_def isWhiteSpace_def)



lemma indexOf_None_drop: "indexOf s pat = None \<Longrightarrow> indexOf (drop n s) pat = None"
proof (induction n arbitrary: s)
  case 0
  then show ?case by simp
next
  case (Suc n)
  show ?case
  proof (cases s)
    case Nil
    with Suc.prems show ?thesis by simp
  next
    case (Cons c cs)
    with Suc.prems have "indexOf cs pat = None" by (simp split: if_splits)
    then show ?thesis using Cons Suc.IH by simp
  qed
qed

lemma indexOf_None_trimStart: "indexOf s pat = None \<Longrightarrow> indexOf (trimStart s) pat = None"
  unfolding trimStart_def by (simp add: dropWhile_eq_drop indexOf_None_drop)

lemma splitOn_not_Nil: "splitOn P s \<noteq> []"
  by (induction s) (auto split: list.splits)

lemma splitOn_no_separator: "filter P s = [] \<Longrightarrow> splitOn P s = [s]"
  by (induction s) (auto split: if_splits)

lemma splitOn_first_separator:
  "filter P p = [] \<Longrightarrow> P x \<Longrightarrow> splitOn P (p @ x # r) = p # splitOn P r"
  by (induction p) (auto split: if_splits)

lemma length_splitOn: "length (splitOn P s) = Suc (length (filter P s))"
  by (induction s) (auto split: list.splits)

text \<open>The last piece of a split is the text behind the last separator.\<close>

lemma last_splitOn: "last (splitOn P s) = rev (takeWhile (\<lambda>c. \<not> P c) (rev s))"
proof (induction s)
  case Nil
  then show ?case by simp
next
  case (Cons c cs)
  show ?case
  proof (cases "filter P cs = []")
    case True
    then have all: "\<And>x. x \<in> set (rev cs) \<Longrightarrow> \<not> P x"
      by (simp add: filter_empty_conv)
    have tw: "takeWhile (\<lambda>c. \<not> P c) (rev cs @ [c]) = rev cs @ takeWhile (\<lambda>c. \<not> P c) [c]"
      using all by (rule takeWhile_append2)
    show ?thesis
      by (cases "P c") (simp_all add: tw splitOn_no_separator True)
  next
    case False
    then obtain x where x: "x \<in> set cs" "P x"
      by (auto simp: filter_empty_conv)
    then have tw: "takeWhile (\<lambda>c. \<not> P c) (rev cs @ [c]) = takeWhile (\<lambda>c. \<not> P c) (rev cs)"
      by (intro takeWhile_append1 [of x]) auto
    from False have "length (splitOn P cs) \<ge> 2"
      by (cases "filter P cs") (auto simp: length_splitOn)
    then obtain w v ws where sp: "splitOn P cs = w # v # ws"
      by (cases "splitOn P cs"; cases "tl (splitOn P cs)") auto
    show ?thesis
      using Cons.IH sp tw by (auto simp: splitOn_not_Nil)
  qed
qed

section \<open>Frontmatter\<close>

lemma hasFrontmatter_prefix: "prefix ''---'' s \<Longrightarrow> FrontmatterEnforcer_hasFrontmatter s"
  by (simp add: FrontmatterEnforcer_hasFrontmatter_def startsWith_def trimStart_dashes)

lemma generateFrontmatter_prefix:
  "enforceFrontmatter settings \<Longrightarrow>
     prefix ''---'' (FrontmatterEnforcer_generateFrontmatter settings date name)"
  by (simp add: FrontmatterEnforcer_generateFrontmatter_def Let_def startsWith_def
      prefix_append_keep)

text \<open>
  Claim C6. When the content has no frontmatter and enforcement is on, \<open>enforce\<close>
  returns the generated header, a blank line and the content: the result has
  frontmatter, and the content is a suffix of it.
\<close>

theorem enforce_inserts_frontmatter:
  assumes "\<not> FrontmatterEnforcer_hasFrontmatter S" and "enforceFrontmatter C"
  shows "FrontmatterEnforcer_hasFrontmatter (FrontmatterEnforcer_enforce C date S name)
         \<and> FrontmatterEnforcer_enforce C date S name =
             FrontmatterEnforcer_generateFrontmatter C date name @ [LF, LF] @ S
         \<and> suffix S (FrontmatterEnforcer_enforce C date S name)"
proof -
  let ?h = "FrontmatterEnforcer_generateFrontmatter C date name"
  have e: "FrontmatterEnforcer_enforce C date S name = ?h @ [LF, LF] @ S"
    using assms by (simp add: FrontmatterEnforcer_enforce_def)
  have "prefix ''---'' (?h @ [LF, LF] @ S)"
    using generateFrontmatter_prefix [OF assms(2)] by (rule prefix_append_keep)
  then have "FrontmatterEnforcer_hasFrontmatter (?h @ [LF, LF] @ S)"
    by (rule hasFrontmatter_prefix)
  moreover have "suffix S (?h @ [LF, LF] @ S)"
    by (simp add: suffix_def)
  ultimately show ?thesis using e by simp
qed

theorem enforce_inserts_frontmatter_witness:
  "\<not> FrontmatterEnforcer_hasFrontmatter ''body''
   \<and> enforceFrontmatter DEFAULT_SETTINGS
   \<and> FrontmatterEnforcer_hasFrontmatter
       (FrontmatterEnforcer_enforce DEFAULT_SETTINGS ''2024-01-01'' ''body'' ''My Note.md'')
   \<and> FrontmatterEnforcer_enforce DEFAULT_SETTINGS ''2024-01-01'' ''body'' ''My Note.md'' =
       ''---'' @ [LF] @ ''title: My Note'' @ [LF] @ ''date: 2024-01-01'' @ [LF]
       @ ''tags: []'' @ [LF] @ ''---'' @ [LF, LF] @ ''body''
   \<and> suffix ''body''
       (FrontmatterEnforcer_enforce DEFAULT_SETTINGS ''2024-01-01'' ''body'' ''My Note.md'')"
proof -
  have h1: "\<not> FrontmatterEnforcer_hasFrontmatter ''body''"
    by code_simp
  have h2: "enforceFrontmatter DEFAULT_SETTINGS"
    by code_simp
  have g: "FrontmatterEnforcer_generateFrontmatter DEFAULT_SETTINGS ''2024-01-01'' ''My Note.md''
           = ''---'' @ [LF] @ ''title: My Note'' @ [LF] @ ''date: 2024-01-01'' @ [LF]
             @ ''tags: []'' @ [LF] @ ''---''"
    by code_simp
  note c = enforce_inserts_frontmatter [OF h1 h2, of "''2024-01-01''" "''My Note.md''"]
  from c have c1: "FrontmatterEnforcer_hasFrontmatter
       (FrontmatterEnforcer_enforce DEFAULT_SETTINGS ''2024-01-01'' ''body'' ''My Note.md'')"
    by (rule conjunct1)
  from c have c2: "FrontmatterEnforcer_enforce DEFAULT_SETTINGS ''2024-01-01'' ''body'' ''My Note.md'' =
       ''---'' @ [LF] @ ''title: My Note'' @ [LF] @ ''date: 2024-01-01'' @ [LF]
       @ ''tags: []'' @ [LF] @ ''---'' @ [LF, LF] @ ''body''"
    unfolding g by simp
  from c have c3: "suffix ''body''
       (FrontmatterEnforcer_enforce DEFAULT_SETTINGS ''2024-01-01'' ''body'' ''My Note.md'')"
    by blast
  show ?thesis
    by (intro conjI h1 h2 c1 c2 c3)
qed

text \<open>
  Claim C4, as amended. A content that starts, after leading white space, with the
  delimiter and has no closing delimiter is still taken to have frontmatter:
  \<open>hasFrontmatter\<close> is true and \<open>enforce\<close> returns the content as it is, with no
  second header; only \<open>extractFrontmatter\<close> finds no match.
\<close>

theorem unterminated_frontmatter_left_untouched:
  assumes "startsWith (trimStart S) ''---''" and "indexOf S (LF # ''---'') = None"
  shows "FrontmatterEnforcer_hasFrontmatter S
         \<and> FrontmatterEnforcer_enforce C date S name = S
         \<and> FrontmatterEnforcer_extractFrontmatter S = None"
proof -
  have h: "FrontmatterEnforcer_hasFrontmatter S"
    using assms(1) by (simp add: FrontmatterEnforcer_hasFrontmatter_def)
  have e: "FrontmatterEnforcer_enforce C date S name = S"
    using h by (simp add: FrontmatterEnforcer_enforce_def)
  have "indexOf (drop 3 (trimStart S)) (LF # ''---'') = None"
    using assms(2) by (intro indexOf_None_drop indexOf_None_trimStart)
  then have x: "FrontmatterEnforcer_extractFrontmatter S = None"
    by (simp add: FrontmatterEnforcer_extractFrontmatter_def Let_def)
  from h e x show ?thesis by simp
qed

theorem unterminated_frontmatter_left_untouched_witness:
  "startsWith (trimStart (''---'' @ [LF] @ ''title: x'')) ''---''
   \<and> indexOf (''---'' @ [LF] @ ''title: x'') (LF # ''---'') = None
   \<and> FrontmatterEnforcer_hasFrontmatter (''---'' @ [LF] @ ''title: x'')
   \<and> FrontmatterEnforcer_enforce DEFAULT_SETTINGS ''2024-01-01''
         (''---'' @ [LF] @ ''title: x'') ''n.md'' = ''---'' @ [LF] @ ''title: x''
   \<and> FrontmatterEnforcer_extractFrontmatter (''---'' @ [LF] @ ''title: x'') = None"
proof -
  have h1: "startsWith (trimStart (''---'' @ [LF] @ ''title: x'')) ''---''"
    by code_simp
  have h2: "indexOf (''---'' @ [LF] @ ''title: x'') (LF # ''---'') = None"
    by code_simp
  from unterminated_frontmatter_left_untouched [OF h1 h2, of DEFAULT_SETTINGS "''2024-01-01''" "''n.md''"]
    h1 h2
  show ?thesis by blast
qed

text \<open>
  Claim C4, as stated, fails on the content \<^verbatim>\<open>---\ntitle: x\<close>: it starts with the
  delimiter and has no closing one, yet \<open>hasFrontmatter\<close> is true and \<open>enforce\<close>
  prepends nothing.
\<close>

theorem unterminated_frontmatter_counterexample:
  "startsWith (trimStart (''---'' @ [LF] @ ''title: x'')) ''---''
   \<and> indexOf (''---'' @ [LF] @ ''title: x'') (LF # ''---'') = None
   \<and> FrontmatterEnforcer_hasFrontmatter (''---'' @ [LF] @ ''title: x'')
   \<and> FrontmatterEnforcer_enforce DEFAULT_SETTINGS ''2024-01-01''
         (''---'' @ [LF] @ ''title: x'') ''n.md''
       \<noteq> FrontmatterEnforcer_generateFrontmatter DEFAULT_SETTINGS ''2024-01-01'' ''n.md''
           @ [LF, LF] @ ''---'' @ [LF] @ ''title: x''"
  by code_simp

section \<open>The pipeline\<close>

text \<open>
  Claim C7. With every rule flag off, the pipeline returns the content as it is.
\<close>

theorem pipeline_noop_when_disabled:
  assumes "\<not> enforceFrontmatter C" "\<not> normalizeFormatting C" "\<not> endWithNewline C"
    "\<not> removeMultipleBlankLines C" "\<not> enforceTagRules C" "\<not> safeWikilinkInsertion C"
  shows "NormalizationPipeline_normalize C date S name = S"
  using assms
  by (simp add: NormalizationPipeline_normalize_def FrontmatterEnforcer_enforce_def
      FormattingNormalizer_normalize_def TagRules_enforce_def WikilinkInserter_normalize_def)

theorem pipeline_noop_when_disabled_witness:
  "\<not> enforceFrontmatter allRulesOff \<and> \<not> normalizeFormatting allRulesOff
   \<and> \<not> endWithNewline allRulesOff \<and> \<not> removeMultipleBlankLines allRulesOff
   \<and> \<not> enforceTagRules allRulesOff \<and> \<not> safeWikilinkInsertion allRulesOff
   \<and> NormalizationPipeline_normalize allRulesOff ''2024-01-01''
        (''#My_Tag [[a/b.md|x]]  '' @ [CR, LF, LF, LF, LF]) ''n.md''
       = ''#My_Tag [[a/b.md|x]]  '' @ [CR, LF, LF, LF, LF]"
proof -
  have h: "\<not> enforceFrontmatter allRulesOff" "\<not> normalizeFormatting allRulesOff"
    "\<not> endWithNewline allRulesOff" "\<not> removeMultipleBlankLines allRulesOff"
    "\<not> enforceTagRules allRulesOff" "\<not> safeWikilinkInsertion allRulesOff"
    by (simp_all add: allRulesOff_def)
  from pipeline_noop_when_disabled [OF h] h show ?thesis by simp
qed

section \<open>Wikilinks\<close>











lemma jsReplaceAll_no_match:
  "(\<And>n. m (drop n s) = 0) \<Longrightarrow> jsReplaceAll m f pre s = s"
proof (induction s arbitrary: pre)
  case Nil
  show ?case by (simp add: jsReplaceAll.simps)
next
  case (Cons c cs)
  from Cons.prems [of 0] have m0: "m (c # cs) = 0" by simp
  have "\<And>n. m (drop n cs) = 0" using Cons.prems [of "Suc _"] by simp
  from Cons.IH [OF this] m0 show ?case by (simp add: jsReplaceAll.simps)
qed




lemma not_in_set_filter: "x \<notin> set s \<Longrightarrow> filter (\<lambda>c. c = x) s = []"
  by (auto simp: filter_empty_conv)

lemma normalizeWikilinkPath_alias:
  assumes "safeWikilinkInsertion C" "CHR ''|'' \<notin> set p" "CHR ''|'' \<notin> set a"
  shows "WikilinkInserter_normalizeWikilinkPath C (p @ ''|'' @ a) =
    (if trim a = [] then WikilinkInserter_normalizeWikilinkPath C p
     else WikilinkInserter_normalizeWikilinkPath C p @ ''|'' @ trim a)"
proof -
  have parts1: "splitOn (\<lambda>c. c = CHR ''|'') p = [p]"
    using assms(2) by (simp add: splitOn_no_separator not_in_set_filter)
  have "splitOn (\<lambda>c. c = CHR ''|'') (p @ CHR ''|'' # a) = p # splitOn (\<lambda>c. c = CHR ''|'') a"
    using assms(2) by (intro splitOn_first_separator) (simp_all add: not_in_set_filter)
  then have parts2: "splitOn (\<lambda>c. c = CHR ''|'') (p @ CHR ''|'' # a) = [p, a]"
    using assms(3) by (simp add: splitOn_no_separator not_in_set_filter)
  show ?thesis
    using assms(1)
    by (cases "wikilinkStyle C")
       (simp_all add: WikilinkInserter_normalizeWikilinkPath_def parts1 parts2 Let_def)
qed

lemma normalizeWikilinkPath_no_alias:
  assumes "safeWikilinkInsertion C" "CHR ''|'' \<notin> set p"
  shows "WikilinkInserter_normalizeWikilinkPath C p =
    (let linkPath = trim p;
         seg = rev (takeWhile (\<lambda>c. c \<noteq> CHR ''/'') (rev linkPath))
     in if wikilinkStyle C = shortest
        then stripMdExtension (if seg = [] then linkPath else seg)
        else linkPath)"
proof -
  have parts: "splitOn (\<lambda>c. c = CHR ''|'') p = [p]"
    using assms(2) by (simp add: splitOn_no_separator not_in_set_filter)
  show ?thesis
    using assms(1)
    by (cases "wikilinkStyle C")
       (simp_all add: WikilinkInserter_normalizeWikilinkPath_def parts Let_def last_splitOn)
qed







text \<open>
  Claim C5, as amended. With safe insertion on and an inner text with at most one bar:
  the link path is the trimmed text in front of the bar and the alias the trimmed text
  behind it; the shortest style keeps the text behind the last slash of the link path,
  or the whole link path when nothing follows that slash, and strips a trailing
  \<^verbatim>\<open>.md\<close>; the result is the link path, followed by the bar and the alias when the
  alias is not empty.
\<close>

theorem normalizeWikilinkPath_single_bar:
  assumes "safeWikilinkInsertion C" "CHR ''|'' \<notin> set p" "CHR ''|'' \<notin> set a"
  shows "let linkPath = trim p;
             seg = rev (takeWhile (\<lambda>c. c \<noteq> CHR ''/'') (rev linkPath));
             styled = (if wikilinkStyle C = shortest
                       then stripMdExtension (if seg = [] then linkPath else seg)
                       else linkPath)
         in WikilinkInserter_normalizeWikilinkPath C p = styled
            \<and> WikilinkInserter_normalizeWikilinkPath C (p @ ''|'' @ a) =
                (if trim a = [] then styled else styled @ ''|'' @ trim a)"
  unfolding normalizeWikilinkPath_alias [OF assms] normalizeWikilinkPath_no_alias [OF assms(1,2)]
  by (simp add: Let_def)

text \<open>Scenario 4 of the specification, as the witness of claim C5.\<close>

theorem normalizeWikilinkPath_single_bar_witness:
  "safeWikilinkInsertion DEFAULT_SETTINGS
   \<and> CHR ''|'' \<notin> set ''Folder/Sub/Page.md'' \<and> CHR ''|'' \<notin> set '' Alias''
   \<and> WikilinkInserter_normalizeWikilinkPath DEFAULT_SETTINGS ''Folder/Sub/Page.md'' = ''Page''
   \<and> WikilinkInserter_normalizeWikilinkPath DEFAULT_SETTINGS ''Folder/Sub/Page.md| Alias''
       = ''Page|Alias''"
proof -
  have h1: "safeWikilinkInsertion DEFAULT_SETTINGS" by code_simp
  have h2: "CHR ''|'' \<notin> set ''Folder/Sub/Page.md''" by simp
  have h3: "CHR ''|'' \<notin> set '' Alias''" by simp
  have s: "wikilinkStyle DEFAULT_SETTINGS = shortest" by code_simp
  have t1: "trim ''Folder/Sub/Page.md'' = ''Folder/Sub/Page.md''" by code_simp
  have t2: "trim '' Alias'' = ''Alias''" by code_simp
  have t3: "stripMdExtension ''Page.md'' = ''Page''" by code_simp
  note c = normalizeWikilinkPath_single_bar [OF h1 h2 h3]
  from c have c1: "WikilinkInserter_normalizeWikilinkPath DEFAULT_SETTINGS ''Folder/Sub/Page.md'' = ''Page''"
    unfolding Let_def s t1 t2 by (simp add: t3)
  from c have c2: "WikilinkInserter_normalizeWikilinkPath DEFAULT_SETTINGS ''Folder/Sub/Page.md| Alias''
       = ''Page|Alias''"
    unfolding Let_def s t1 t2 by (simp add: t3)
  show ?thesis
    by (intro conjI h1 h2 h3 c1 c2)
qed

text \<open>
  Claim C5, as stated, fails: on \<^verbatim>\<open>dir/\<close> the source keeps the whole path where the
  claim gives the empty last segment, on \<^verbatim>\<open> a |b\<close> the source trims the link path,
  and on \<^verbatim>\<open>Page|\<close> the source drops the bar of the empty alias.
\<close>

theorem normalizeWikilinkPath_counterexample:
  "WikilinkInserter_normalizeWikilinkPath DEFAULT_SETTINGS ''dir/'' = ''dir/''
   \<and> claimed_normalizeWikilinkPath DEFAULT_SETTINGS ''dir/'' = []
   \<and> WikilinkInserter_normalizeWikilinkPath DEFAULT_SETTINGS '' a |b'' = ''a|b''
   \<and> claimed_normalizeWikilinkPath DEFAULT_SETTINGS '' a |b'' = '' a |b''
   \<and> WikilinkInserter_normalizeWikilinkPath DEFAULT_SETTINGS ''Page|'' = ''Page''
   \<and> claimed_normalizeWikilinkPath DEFAULT_SETTINGS ''Page|'' = ''Page|''"
  by code_simp

text \<open>
  With two bars the source keeps the text between the first and the second one as the
  alias and drops the rest.
\<close>

lemma normalizeWikilinkPath_two_bars:
  "WikilinkInserter_normalizeWikilinkPath DEFAULT_SETTINGS ''a|b|c'' = ''a|b''"
  by code_simp

section \<open>The date read by the pipeline\<close>

lemma jsReplaceAll_literal_absent:
  "indexOf s pat = None \<Longrightarrow> jsReplaceAll (matchLiteral pat) f pre s = s"
proof (induction s arbitrary: pre)
  case Nil
  show ?case by (simp add: jsReplaceAll.simps)
next
  case (Cons c cs)
  from Cons.prems have np: "\<not> prefix pat (c # cs)" and tl: "indexOf cs pat = None"
    by (simp_all split: if_splits)
  from np have "matchLiteral pat (c # cs) = 0"
    by (simp add: matchLiteral_def)
  then show ?case
    using Cons.IH [OF tl] by (simp add: jsReplaceAll.simps)
qed

lemma replaceAllLiteral_absent: "indexOf s pat = None \<Longrightarrow> replaceAllLiteral pat repl s = s"
  unfolding replaceAllLiteral_def by (rule jsReplaceAll_literal_absent)

lemma enforce_date_irrelevant:
  assumes "d1 = d2 \<or> \<not> enforceFrontmatter C \<or> FrontmatterEnforcer_hasFrontmatter S
     \<or> indexOf (replaceAllLiteral ''{{title}}'' (stripMdExtension name)
                  (replaceAllLiteral ''{{id}}''
                     (FrontmatterEnforcer_generateId (stripMdExtension name))
                     (frontmatterTemplate C)))
          ''{{date}}'' = None"
  shows "FrontmatterEnforcer_enforce C d1 S name = FrontmatterEnforcer_enforce C d2 S name"
  using assms
proof (elim disjE)
  assume "d1 = d2"
  then show ?thesis by simp
next
  assume "\<not> enforceFrontmatter C"
  then show ?thesis by (simp add: FrontmatterEnforcer_enforce_def)
next
  assume "FrontmatterEnforcer_hasFrontmatter S"
  then show ?thesis by (simp add: FrontmatterEnforcer_enforce_def)
next
  assume "indexOf (replaceAllLiteral ''{{title}}'' (stripMdExtension name)
                  (replaceAllLiteral ''{{id}}''
                     (FrontmatterEnforcer_generateId (stripMdExtension name))
                     (frontmatterTemplate C)))
          ''{{date}}'' = None"
  then have "FrontmatterEnforcer_generateFrontmatter C d1 name
             = FrontmatterEnforcer_generateFrontmatter C d2 name"
    by (simp add: FrontmatterEnforcer_generateFrontmatter_def Let_def replaceAllLiteral_absent)
  then show ?thesis by (simp add: FrontmatterEnforcer_enforce_def)
qed

text \<open>
  Claim C8, as amended. The output of the pipeline is a function of the configuration,
  the content, the file name and the current date. Two invocations on the same content
  and file name return the same string when they read the same date, and also across
  dates when no header is generated (enforcement is off, or the content has
  frontmatter) or the template, after the id and the title are filled in, has no date
  placeholder.
\<close>

theorem pipeline_date_dependence:
  assumes "d1 = d2 \<or> \<not> enforceFrontmatter C \<or> FrontmatterEnforcer_hasFrontmatter S
     \<or> indexOf (replaceAllLiteral ''{{title}}'' (stripMdExtension name)
                  (replaceAllLiteral ''{{id}}''
                     (FrontmatterEnforcer_generateId (stripMdExtension name))
                     (frontmatterTemplate C)))
          ''{{date}}'' = None"
  shows "NormalizationPipeline_normalize C d1 S name = NormalizationPipeline_normalize C d2 S name"
  unfolding NormalizationPipeline_normalize_def Let_def
  by (simp only: enforce_date_irrelevant [OF assms])

text \<open>Witness of claim C8: a content with frontmatter, normalized on two dates.\<close>

theorem pipeline_date_dependence_witness:
  "FrontmatterEnforcer_hasFrontmatter (''---'' @ [LF] @ ''title: t'' @ [LF] @ ''---'' @ [LF] @ ''body'')
   \<and> NormalizationPipeline_normalize DEFAULT_SETTINGS ''2024-01-01''
        (''---'' @ [LF] @ ''title: t'' @ [LF] @ ''---'' @ [LF] @ ''body'') ''n.md''
     = NormalizationPipeline_normalize DEFAULT_SETTINGS ''2025-06-30''
        (''---'' @ [LF] @ ''title: t'' @ [LF] @ ''---'' @ [LF] @ ''body'') ''n.md''"
proof -
  have h: "FrontmatterEnforcer_hasFrontmatter
             (''---'' @ [LF] @ ''title: t'' @ [LF] @ ''---'' @ [LF] @ ''body'')"
    by code_simp
  then have "''2024-01-01'' = ''2025-06-30'' \<or> \<not> enforceFrontmatter DEFAULT_SETTINGS
     \<or> FrontmatterEnforcer_hasFrontmatter
          (''---'' @ [LF] @ ''title: t'' @ [LF] @ ''---'' @ [LF] @ ''body'')
     \<or> indexOf (replaceAllLiteral ''{{title}}'' (stripMdExtension ''n.md'')
                  (replaceAllLiteral ''{{id}}''
                     (FrontmatterEnforcer_generateId (stripMdExtension ''n.md''))
                     (frontmatterTemplate DEFAULT_SETTINGS)))
          ''{{date}}'' = None"
    by (intro disjI2 disjI1)
  from pipeline_date_dependence [OF this] h show ?thesis
    by (intro conjI)
qed

text \<open>
  Claim C8, as stated, fails: with the default settings the same content and file name
  give two different strings on two different dates.
\<close>

theorem pipeline_date_counterexample:
  "NormalizationPipeline_normalize DEFAULT_SETTINGS ''2024-01-01'' ''body'' ''n.md''
     = ''---'' @ [LF] @ ''title: n'' @ [LF] @ ''date: 2024-01-01'' @ [LF] @ ''tags: []'' @ [LF]
       @ ''---'' @ [LF, LF] @ ''body'' @ [LF]
   \<and> NormalizationPipeline_normalize DEFAULT_SETTINGS ''2024-01-02'' ''body'' ''n.md''
     = ''---'' @ [LF] @ ''title: n'' @ [LF] @ ''date: 2024-01-02'' @ [LF] @ ''tags: []'' @ [LF]
       @ ''---'' @ [LF, LF] @ ''body'' @ [LF]
   \<and> NormalizationPipeline_normalize DEFAULT_SETTINGS ''2024-01-01'' ''body'' ''n.md''
     \<noteq> NormalizationPipeline_normalize DEFAULT_SETTINGS ''2024-01-02'' ''body'' ''n.md''"
  by code_simp

section \<open>Idempotence\<close>

subsection \<open>The steps that are idempotent\<close>

text \<open>Lowering or raising the case twice is the same as doing it once.\<close>

lemma toLowerChar_idem: "toLowerChar (toLowerChar c) = toLowerChar c"
proof -
  let ?n = "of_char c :: nat"
  show ?thesis
  proof (cases "(65 \<le> ?n \<and> ?n \<le> 90) \<or> (192 \<le> ?n \<and> ?n \<le> 222 \<and> ?n \<noteq> 215)")
    case True
    then have l: "toLowerChar c = char_of (?n + 32)"
      by (simp add: toLowerChar_def Let_def)
    from True have "?n + 32 < 256" by arith
    then have o: "(of_char (char_of (?n + 32) :: char) :: nat) = ?n + 32"
      by simp
    from True have "\<not> ((65 \<le> ?n + 32 \<and> ?n + 32 \<le> 90)
                 \<or> (192 \<le> ?n + 32 \<and> ?n + 32 \<le> 222 \<and> ?n + 32 \<noteq> 215))"
      by arith
    then have "toLowerChar (char_of (?n + 32)) = char_of (?n + 32)"
      unfolding toLowerChar_def Let_def o by (simp only: if_False)
    then show ?thesis by (simp only: l)
  next
    case False
    then have "toLowerChar c = c"
      unfolding toLowerChar_def Let_def by (simp only: if_False)
    then show ?thesis by simp
  qed
qed

lemma toLowerCase_idem: "toLowerCase (toLowerCase s) = toLowerCase s"
  by (simp add: toLowerCase_def toLowerChar_idem)

lemma toUpperCase_single: "toUpperCase [c] = toUpperChar c"
  by (simp add: toUpperCase_def)

lemma toUpperCase_append: "toUpperCase (xs @ ys) = toUpperCase xs @ toUpperCase ys"
  by (simp add: toUpperCase_def)

lemma toUpperCase_toUpperChar: "toUpperCase (toUpperChar c) = toUpperChar c"
proof -
  let ?n = "of_char c :: nat"
  consider (lower) "(97 \<le> ?n \<and> ?n \<le> 122) \<or> (224 \<le> ?n \<and> ?n \<le> 254 \<and> ?n \<noteq> 247)"
    | (sharp) "\<not> ((97 \<le> ?n \<and> ?n \<le> 122) \<or> (224 \<le> ?n \<and> ?n \<le> 254 \<and> ?n \<noteq> 247))" "?n = 223"
    | (other) "\<not> ((97 \<le> ?n \<and> ?n \<le> 122) \<or> (224 \<le> ?n \<and> ?n \<le> 254 \<and> ?n \<noteq> 247))" "?n \<noteq> 223"
    by arith
  then show ?thesis
  proof cases
    case lower
    then have u: "toUpperChar c = [char_of (?n - 32)]"
      unfolding toUpperChar_def Let_def by (simp only: if_True)
    from lower have "?n - 32 < 256" by arith
    then have o: "(of_char (char_of (?n - 32) :: char) :: nat) = ?n - 32"
      by simp
    from lower have "\<not> ((97 \<le> ?n - 32 \<and> ?n - 32 \<le> 122)
                 \<or> (224 \<le> ?n - 32 \<and> ?n - 32 \<le> 254 \<and> ?n - 32 \<noteq> 247))"
      and "?n - 32 \<noteq> 223"
      by arith+
    then have "toUpperChar (char_of (?n - 32)) = [char_of (?n - 32)]"
      unfolding toUpperChar_def Let_def o by (simp only: if_False)
    then show ?thesis
      unfolding u toUpperCase_single .
  next
    case sharp
    then have u: "toUpperChar c = ''SS''"
      unfolding toUpperChar_def Let_def by simp
    have "toUpperCase ''SS'' = ''SS''"
      by code_simp
    then show ?thesis unfolding u .
  next
    case other
    then have u: "toUpperChar c = [c]"
      unfolding toUpperChar_def Let_def by (simp only: if_False)
    show ?thesis
      by (simp only: u toUpperCase_single)
  qed
qed

lemma toUpperCase_idem: "toUpperCase (toUpperCase s) = toUpperCase s"
proof (induction s)
  case Nil
  show ?case by (simp add: toUpperCase_def)
next
  case (Cons c cs)
  have "toUpperCase (c # cs) = toUpperChar c @ toUpperCase cs"
    by (simp add: toUpperCase_def)
  then show ?case
    by (simp only: toUpperCase_append toUpperCase_toUpperChar Cons.IH)
qed

text \<open>
  The three other tag formats are fixed points, on the tags whose capitals the model
  has (all but the two characters named at \<open>toUpperChar\<close>).
\<close>

lemma normalizeTag_fixed_point_except_camelCase:
  assumes "tagFormat C \<noteq> camelCase" and "CHR 0xB5 \<notin> set t" and "CHR 0xFF \<notin> set t"
  shows "TagRules_normalizeTag C (TagRules_normalizeTag C t) = TagRules_normalizeTag C t"
  using assms(1)
  by (cases "tagFormat C")
     (simp_all add: TagRules_normalizeTag_def toLowerCase_idem toUpperCase_idem)

text \<open>
  Collapsing the blank runs leaves no run of three line feeds, so a second pass finds
  nothing to replace; and a text that ends with one line feed behind its last visible
  character is left as it is.
\<close>

lemma matchBlankRun_blankRun: "matchBlankRun s = (if 3 \<le> blankRun s then blankRun s else 0)"
  by (simp add: matchBlankRun_def Let_def)

lemma blankRun_Nil: "blankRun [] = 0"
  by (simp add: blankRun_def)

lemma blankRun_Cons: "blankRun (c # cs) = (if c = LF then Suc (blankRun cs) else 0)"
  by (simp add: blankRun_def)

lemma takeWhile_after_dropWhile: "takeWhile P (dropWhile P xs) = []"
  by (induction xs) simp_all

lemma blankRun_drop: "blankRun (drop (blankRun s) s) = 0"
  unfolding blankRun_def dropWhile_eq_drop [symmetric] takeWhile_after_dropWhile by simp

lemma collapse_Nil: "collapse pre [] = []"
  by (simp add: jsReplaceAll.simps)

lemma collapse_small:
  "blankRun (c # cs) < 3 \<Longrightarrow> collapse pre (c # cs) = c # collapse (pre @ [c]) cs"
  by (simp add: jsReplaceAll.simps(2) matchBlankRun_blankRun)

lemma collapse_big:
  "3 \<le> blankRun (c # cs) \<Longrightarrow>
   collapse pre (c # cs) =
     LF # LF # collapse (pre @ take (blankRun (c # cs)) (c # cs)) (drop (blankRun (c # cs)) (c # cs))"
  by (simp add: jsReplaceAll.simps(2) matchBlankRun_blankRun)

lemma blankRun_LF: "blankRun (LF # cs) = Suc (blankRun cs)"
  by (simp add: blankRun_def)

lemma matchBlankRun_small: "blankRun s < 3 \<Longrightarrow> matchBlankRun s = 0"
  by (simp add: matchBlankRun_blankRun)

lemma blankRun_collapse:
  "blankRun (collapse pre s) = (if 3 \<le> blankRun s then 2 else blankRun s)"
proof (induction "length s" arbitrary: s pre rule: less_induct)
  case less
  show ?case
  proof (cases s)
    case Nil
    then show ?thesis by (simp add: collapse_Nil blankRun_Nil)
  next
    case (Cons c cs)
    show ?thesis
    proof (cases "3 \<le> blankRun (c # cs)")
      case True
      let ?t = "drop (blankRun (c # cs)) (c # cs)"
      from True have "length ?t < length s" using Cons by simp
      from less [OF this] have "blankRun (collapse (pre @ take (blankRun (c # cs)) (c # cs)) ?t) = 0"
        by (simp only: blankRun_drop) simp
      then have "blankRun (collapse pre (c # cs)) = 2"
        unfolding collapse_big [OF True] by (simp add: blankRun_Cons)
      with True Cons show ?thesis by simp
    next
      case False
      then have small: "blankRun (c # cs) < 3" by simp
      have "length cs < length s" using Cons by simp
      from less [OF this]
      have ih: "blankRun (collapse (pre @ [c]) cs) = (if 3 \<le> blankRun cs then 2 else blankRun cs)" .
      have "blankRun (collapse pre (c # cs)) = blankRun (c # cs)"
        unfolding collapse_small [OF small] using small ih
        by (cases "c = LF") (simp_all add: blankRun_Cons)
      with False Cons show ?thesis by simp
    qed
  qed
qed

lemma collapse_leaves_no_match: "matchBlankRun (drop n (collapse pre s)) = 0"
proof (induction "length s" arbitrary: s pre n rule: less_induct)
  case less
  show ?case
  proof (cases s)
    case Nil
    then show ?thesis by (simp add: collapse_Nil matchBlankRun_blankRun blankRun_Nil)
  next
    case (Cons c cs)
    show ?thesis
    proof (cases "3 \<le> blankRun (c # cs)")
      case True
      let ?t = "drop (blankRun (c # cs)) (c # cs)"
      let ?r = "collapse (pre @ take (blankRun (c # cs)) (c # cs)) ?t"
      from True have len: "length ?t < length s" using Cons by simp
      have r0: "blankRun ?r = 0"
        unfolding blankRun_collapse by (simp add: blankRun_drop)
      have c: "collapse pre s = LF # LF # ?r"
        unfolding Cons by (rule collapse_big [OF True])
      have b2: "blankRun (LF # LF # ?r) < 3" and b1: "blankRun (LF # ?r) < 3"
        by (simp_all only: blankRun_LF r0)
      show ?thesis
      proof (cases n)
        case 0
        then have "drop n (collapse pre s) = LF # LF # ?r" unfolding c by simp
        then show ?thesis using b2 by (simp only: matchBlankRun_small)
      next
        case (Suc k)
        show ?thesis
        proof (cases k)
          case 0
          with Suc have "drop n (collapse pre s) = LF # ?r" unfolding c by simp
          then show ?thesis using b1 by (simp only: matchBlankRun_small)
        next
          case (Suc j)
          with \<open>n = Suc k\<close> have "drop n (collapse pre s) = drop j ?r" unfolding c by simp
          then show ?thesis using less [OF len] by (simp only:)
        qed
      qed
    next
      case False
      then have small: "blankRun (c # cs) < 3" by simp
      have len: "length cs < length s" using Cons by simp
      have c: "collapse pre s = c # collapse (pre @ [c]) cs"
        unfolding Cons by (rule collapse_small [OF small])
      show ?thesis
      proof (cases n)
        case 0
        have "blankRun (c # collapse (pre @ [c]) cs) < 3"
          using small by (cases "c = LF") (simp_all add: blankRun_Cons blankRun_collapse)
        with 0 show ?thesis unfolding c by (simp add: matchBlankRun_blankRun)
      next
        case (Suc k)
        with less [OF len] show ?thesis unfolding c by simp
      qed
    qed
  qed
qed

lemma collapse_idempotent: "collapse pre' (collapse pre s) = collapse pre s"
  by (rule jsReplaceAll_no_match) (rule collapse_leaves_no_match)

lemma removeMultipleBlankLines_idempotent:
  "FormattingNormalizer_removeMultipleBlankLines C (FormattingNormalizer_removeMultipleBlankLines C s)
   = FormattingNormalizer_removeMultipleBlankLines C s"
  by (simp add: FormattingNormalizer_removeMultipleBlankLines_def collapse_idempotent)

lemma trimEnd_idem_newline: "trimEnd (trimEnd s @ [LF]) = trimEnd s"
proof -
  have w: "isWhiteSpace LF" by (simp add: isWhiteSpace_def)
  have "rev (trimEnd s @ [LF]) = LF # dropWhile isWhiteSpace (rev s)"
    by (simp add: trimEnd_def)
  then have "dropWhile isWhiteSpace (rev (trimEnd s @ [LF])) = dropWhile isWhiteSpace (rev s)"
    using w by simp
  then show ?thesis
    unfolding trimEnd_def [of "trimEnd s @ [LF]"] by (simp add: trimEnd_def)
qed

lemma ensureTrailingNewline_idempotent:
  "FormattingNormalizer_ensureTrailingNewline C (FormattingNormalizer_ensureTrailingNewline C s)
   = FormattingNormalizer_ensureTrailingNewline C s"
  by (simp add: FormattingNormalizer_ensureTrailingNewline_def trimEnd_idem_newline)

text \<open>Once a header is there, \<open>enforce\<close> changes nothing.\<close>

lemma enforce_idempotent:
  "FrontmatterEnforcer_enforce C date (FrontmatterEnforcer_enforce C date S name) name
   = FrontmatterEnforcer_enforce C date S name"
proof (cases "enforceFrontmatter C \<and> \<not> FrontmatterEnforcer_hasFrontmatter S")
  case True
  then have e: "FrontmatterEnforcer_enforce C date S name
                = FrontmatterEnforcer_generateFrontmatter C date name @ [LF, LF] @ S"
    by (simp add: FrontmatterEnforcer_enforce_def)
  from True have "prefix ''---'' (FrontmatterEnforcer_generateFrontmatter C date name @ [LF, LF] @ S)"
    by (intro prefix_append_keep generateFrontmatter_prefix) simp
  then have "FrontmatterEnforcer_hasFrontmatter (FrontmatterEnforcer_enforce C date S name)"
    unfolding e by (rule hasFrontmatter_prefix)
  then show ?thesis
    by (simp add: FrontmatterEnforcer_enforce_def [of C date "FrontmatterEnforcer_enforce C date S name"])
next
  case False
  then show ?thesis
    by (auto simp: FrontmatterEnforcer_enforce_def)
qed

subsection \<open>The steps that are not\<close>

text \<open>
  Claim C2 fails on the code for the camelCase format: the first application removes
  the separators the capitals depend on, and the second one lowers the capitals.
\<close>

theorem normalizeTag_camelCase_not_fixed_point:
  "TagRules_normalizeTag camelCaseTagsOnly ''my_tag'' = ''myTag''
   \<and> TagRules_normalizeTag camelCaseTagsOnly (TagRules_normalizeTag camelCaseTagsOnly ''my_tag'')
       = ''mytag''"
  by code_simp

text \<open>
  Claim C1 fails on the code: with the camelCase tag format a second run of the pipeline
  changes the tag again.
\<close>

theorem pipeline_not_idempotent:
  "NormalizationPipeline_normalize camelCaseTagsOnly ''2024-01-01'' ''see #my_tag'' ''n.md''
     = ''see #myTag''
   \<and> NormalizationPipeline_normalize camelCaseTagsOnly ''2024-01-01''
       (NormalizationPipeline_normalize camelCaseTagsOnly ''2024-01-01'' ''see #my_tag'' ''n.md'')
       ''n.md''
     = ''see #mytag''"
  by code_simp

text \<open>
  The default settings are not idempotent either: a carriage return in front of a
  line ending, and a path that ends in \<^verbatim>\<open>.md.md\<close>, each need a second run.
\<close>

lemma pipeline_not_idempotent_default_settings:
  "NormalizationPipeline_normalize DEFAULT_SETTINGS ''2024-01-01''
       (''---'' @ [LF] @ ''---'' @ [LF] @ ''a'' @ [CR, CR, LF] @ ''[[b.md.md]]'') ''n.md''
     = ''---'' @ [LF] @ ''---'' @ [LF] @ ''a'' @ [CR, LF] @ ''[[b.md]]'' @ [LF]
   \<and> NormalizationPipeline_normalize DEFAULT_SETTINGS ''2024-01-01''
       (''---'' @ [LF] @ ''---'' @ [LF] @ ''a'' @ [CR, LF] @ ''[[b.md]]'' @ [LF]) ''n.md''
     = ''---'' @ [LF] @ ''---'' @ [LF] @ ''a'' @ [LF] @ ''[[b]]'' @ [LF]"
  by code_simp

text \<open>
  Claim C3 fails on the code: replacing every carriage return and line feed by a line
  feed can bring a carriage return in front of a line feed, so
  \<open>normalizeLineEndings\<close>, and with it \<open>normalize\<close>, changes its own output.
\<close>

theorem normalizeLineEndings_not_idempotent:
  "FormattingNormalizer_normalizeLineEndings (''a'' @ [CR, CR, LF] @ ''b'') = ''a'' @ [CR, LF] @ ''b''
   \<and> FormattingNormalizer_normalizeLineEndings
         (FormattingNormalizer_normalizeLineEndings (''a'' @ [CR, CR, LF] @ ''b''))
       = ''a'' @ [LF] @ ''b''
   \<and> FormattingNormalizer_normalize DEFAULT_SETTINGS (''a'' @ [CR, CR, LF] @ ''b'')
       = ''a'' @ [CR, LF] @ ''b'' @ [LF]
   \<and> FormattingNormalizer_normalize DEFAULT_SETTINGS
         (FormattingNormalizer_normalize DEFAULT_SETTINGS (''a'' @ [CR, CR, LF] @ ''b''))
       = ''a'' @ [LF] @ ''b'' @ [LF]"
  by code_simp

section \<open>The vault report\<close>

lemma foldl_append_concat:
  "foldl (\<lambda>markdown x. markdown @ g x) init xs = init @ concat (map g xs)"
  by (induction xs arbitrary: init) simp_all

lemma filter_changed_redact:
  "filter (\<lambda>r. length (changes r) > 0)
          (map (\<lambda>r. if changes r = [] then r\<lparr>filePath := g r\<rparr> else r) reports)
   = filter (\<lambda>r. length (changes r) > 0) reports"
  by (induction reports) simp_all

lemma length_filter_unchanged_redact:
  "length (filter (\<lambda>r. length (changes r) = 0)
             (map (\<lambda>r. if changes r = [] then r\<lparr>filePath := g r\<rparr> else r) reports))
   = length (filter (\<lambda>r. length (changes r) = 0) reports)"
  by (induction reports) simp_all

lemma vaultReportUpToUnchanged_redact:
  "vaultReportUpToUnchanged timestamp
     (map (\<lambda>r. if changes r = [] then r\<lparr>filePath := g r\<rparr> else r) reports)
   = vaultReportUpToUnchanged timestamp reports"
  unfolding vaultReportUpToUnchanged_def Let_def
  by (simp only: filter_changed_redact length_filter_unchanged_redact length_map)

text \<open>
  Claim C9. The report lists the paths of the unchanged documents only when there are
  at most 20 of them: with more than 20 the report ends where the listing would start,
  with 1 to 20 it ends with the heading and one line per unchanged path; and the text
  in front of the listing does not depend on the paths of the unchanged documents.
\<close>

theorem unchanged_listing_only_up_to_twenty:
  "let unchangedFiles = filter (\<lambda>r. length (changes r) = 0) reports;
       listing = ''## Files Already Conforming'' @ [LF, LF]
                 @ concat (map (\<lambda>r. ''- `'' @ filePath r @ ''`'' @ [LF]) unchangedFiles) @ [LF]
   in (20 < length unchangedFiles \<longrightarrow>
         formatVaultReportAsMarkdown timestamp reports
         = vaultReportUpToUnchanged timestamp reports)
      \<and> (0 < length unchangedFiles \<and> length unchangedFiles \<le> 20 \<longrightarrow>
         formatVaultReportAsMarkdown timestamp reports
         = vaultReportUpToUnchanged timestamp reports @ listing)
      \<and> vaultReportUpToUnchanged timestamp
           (map (\<lambda>r. if changes r = [] then r\<lparr>filePath := g r\<rparr> else r) reports)
         = vaultReportUpToUnchanged timestamp reports"
proof -
  let ?u = "filter (\<lambda>r. length (changes r) = 0) reports"
  have a: "20 < length ?u \<Longrightarrow>
      formatVaultReportAsMarkdown timestamp reports = vaultReportUpToUnchanged timestamp reports"
    by (simp add: formatVaultReportAsMarkdown_def Let_def)
  have f: "foldl (\<lambda>markdown report. markdown @ ''- `'' @ filePath report @ ''`'' @ [LF]) init ?u
           = init @ concat (map (\<lambda>r. ''- `'' @ filePath r @ ''`'' @ [LF]) ?u)" for init
    by (rule foldl_append_concat)
  have b: "0 < length ?u \<and> length ?u \<le> 20 \<Longrightarrow>
      formatVaultReportAsMarkdown timestamp reports
      = vaultReportUpToUnchanged timestamp reports @ ''## Files Already Conforming'' @ [LF, LF]
        @ concat (map (\<lambda>r. ''- `'' @ filePath r @ ''`'' @ [LF]) ?u) @ [LF]"
    unfolding formatVaultReportAsMarkdown_def Let_def f by simp
  show ?thesis
    unfolding Let_def using a b vaultReportUpToUnchanged_redact [of timestamp g reports]
    by blast
qed

text \<open>Witness of claim C9: 21 unchanged documents, and one unchanged beside one changed.\<close>

theorem unchanged_listing_only_up_to_twenty_witness:
  "20 < length (filter (\<lambda>r. length (changes r) = 0) (replicate 21 conformingReport))
   \<and> formatVaultReportAsMarkdown ''2024-01-01T00:00:00.000Z'' (replicate 21 conformingReport)
       = ''# Vault Linting Report'' @ [LF, LF]
         @ ''**Generated**: 2024-01-01T00:00:00.000Z'' @ [LF]
         @ ''**Total Files Processed**: 21'' @ [LF, LF]
         @ ''**Files with Changes**: 0'' @ [LF]
         @ ''**Files Already Conforming**: 21'' @ [LF, LF]
   \<and> 0 < length (filter (\<lambda>r. length (changes r) = 0) [conformingReport, changedReport])
   \<and> length (filter (\<lambda>r. length (changes r) = 0) [conformingReport, changedReport]) \<le> 20
   \<and> formatVaultReportAsMarkdown ''2024-01-01T00:00:00.000Z'' [conformingReport, changedReport]
       = vaultReportUpToUnchanged ''2024-01-01T00:00:00.000Z'' [conformingReport, changedReport]
         @ ''## Files Already Conforming'' @ [LF, LF] @ ''- `notes/a.md`'' @ [LF] @ [LF]"
proof -
  have h1: "20 < length (filter (\<lambda>r. length (changes r) = 0) (replicate 21 conformingReport))"
    by code_simp
  have h2: "0 < length (filter (\<lambda>r. length (changes r) = 0) [conformingReport, changedReport])"
    by code_simp
  have h3: "length (filter (\<lambda>r. length (changes r) = 0) [conformingReport, changedReport]) \<le> 20"
    by code_simp
  have u: "vaultReportUpToUnchanged ''2024-01-01T00:00:00.000Z'' (replicate 21 conformingReport)
       = ''# Vault Linting Report'' @ [LF, LF]
         @ ''**Generated**: 2024-01-01T00:00:00.000Z'' @ [LF]
         @ ''**Total Files Processed**: 21'' @ [LF, LF]
         @ ''**Files with Changes**: 0'' @ [LF]
         @ ''**Files Already Conforming**: 21'' @ [LF, LF]"
    by code_simp
  have l: "filter (\<lambda>r. length (changes r) = 0) [conformingReport, changedReport]
           = [conformingReport]"
    by code_simp
  have p: "filePath conformingReport = ''notes/a.md''"
    by code_simp
  note t1 = unchanged_listing_only_up_to_twenty
         [of "replicate 21 conformingReport" "''2024-01-01T00:00:00.000Z''" "\<lambda>r. []",
          unfolded Let_def]
  have c1: "formatVaultReportAsMarkdown ''2024-01-01T00:00:00.000Z'' (replicate 21 conformingReport)
            = vaultReportUpToUnchanged ''2024-01-01T00:00:00.000Z'' (replicate 21 conformingReport)"
    using t1 [THEN conjunct1] h1 by (rule mp)
  note t2 = unchanged_listing_only_up_to_twenty
         [of "[conformingReport, changedReport]" "''2024-01-01T00:00:00.000Z''" "\<lambda>r. []",
          unfolded Let_def]
  from mp [OF t2 [THEN conjunct2, THEN conjunct1] conjI [OF h2 h3]]
  have c2: "formatVaultReportAsMarkdown ''2024-01-01T00:00:00.000Z'' [conformingReport, changedReport]
       = vaultReportUpToUnchanged ''2024-01-01T00:00:00.000Z'' [conformingReport, changedReport]
         @ ''## Files Already Conforming'' @ [LF, LF] @ ''- `notes/a.md`'' @ [LF] @ [LF]"
    unfolding l by (simp add: p)
  show ?thesis
    using h1 h2 h3 c1 [unfolded u] c2 by (intro conjI)
qed

end
